theory Spec2Isabelle
  imports Complex_Main "HOL-Library.Multiset" "HOL-Library.Char_ord" "HOL-Library.List_Lexorder"
begin

section \<open>JavaScript numbers\<close>

text \<open>
  A JavaScript number is modelled by its mathematical value: a rational, or one of the
  three special values of IEEE-754. The operations follow ECMAScript on the special
  values and are exact on finite ones; the rounding of doubles and the sign of zero are
  not represented.
\<close>

datatype jsnum = NaN | NInf | Fin rat | PInf

fun jneg :: "jsnum \<Rightarrow> jsnum" where
  "jneg NaN = NaN"
| "jneg NInf = PInf"
| "jneg PInf = NInf"
| "jneg (Fin a) = Fin (- a)"

fun jadd :: "jsnum \<Rightarrow> jsnum \<Rightarrow> jsnum" where
  "jadd NaN y = NaN"
| "jadd x NaN = NaN"
| "jadd PInf NInf = NaN"
| "jadd NInf PInf = NaN"
| "jadd PInf y = PInf"
| "jadd x PInf = PInf"
| "jadd NInf y = NInf"
| "jadd x NInf = NInf"
| "jadd (Fin a) (Fin b) = Fin (a + b)"

definition jsub :: "jsnum \<Rightarrow> jsnum \<Rightarrow> jsnum" where
  "jsub x y = jadd x (jneg y)"

fun jsgn :: "jsnum \<Rightarrow> int" where
  "jsgn NaN = 0"
| "jsgn NInf = - 1"
| "jsgn PInf = 1"
| "jsgn (Fin a) = (if a < 0 then - 1 else if a = 0 then 0 else 1)"

fun jmul :: "jsnum \<Rightarrow> jsnum \<Rightarrow> jsnum" where
  "jmul NaN y = NaN"
| "jmul x NaN = NaN"
| "jmul (Fin a) (Fin b) = Fin (a * b)"
| "jmul x y =
     (if jsgn x * jsgn y = 0 then NaN else if jsgn x * jsgn y < 0 then NInf else PInf)"

fun jdiv :: "jsnum \<Rightarrow> jsnum \<Rightarrow> jsnum" where
  "jdiv NaN y = NaN"
| "jdiv x NaN = NaN"
| "jdiv (Fin a) (Fin b) =
     (if b \<noteq> 0 then Fin (a / b)
      else if a = 0 then NaN else if a < 0 then NInf else PInf)"
| "jdiv (Fin a) y = Fin 0"
| "jdiv x (Fin b) = (if jsgn x * (if b < 0 then - 1 else 1) < 0 then NInf else PInf)"
| "jdiv x y = NaN"

text \<open>\<open>jgt x y\<close> is \<^verbatim>\<open>x > y\<close>: false as soon as one side is NaN.\<close>

fun jgt :: "jsnum \<Rightarrow> jsnum \<Rightarrow> bool" where
  "jgt NaN y = False"
| "jgt x NaN = False"
| "jgt NInf y = False"
| "jgt x NInf = True"
| "jgt x PInf = False"
| "jgt PInf y = True"
| "jgt (Fin a) (Fin b) = (a > b)"

definition jlt :: "jsnum \<Rightarrow> jsnum \<Rightarrow> bool" where
  "jlt x y = jgt y x"

definition isNaN :: "jsnum \<Rightarrow> bool" where
  "isNaN x = (x = NaN)"

section \<open>Array.prototype.sort\<close>

text \<open>
  \<^verbatim>\<open>xs.sort(comparefn)\<close> is a stable sort (ECMAScript 2019). A comparator result that
  is NaN counts as \<open>+0\<close>; \<open>x\<close> stays before \<open>y\<close> unless \<open>comparefn(x, y) > 0\<close>.
  The model is the stable insertion sort driven by the comparator.
\<close>

definition sortCompare :: "('a \<Rightarrow> 'a \<Rightarrow> jsnum) \<Rightarrow> 'a \<Rightarrow> 'a \<Rightarrow> jsnum" where
  "sortCompare comparefn x y = (let v = comparefn x y in if isNaN v then Fin 0 else v)"

definition notAfter :: "('a \<Rightarrow> 'a \<Rightarrow> jsnum) \<Rightarrow> 'a \<Rightarrow> 'a \<Rightarrow> bool" where
  "notAfter comparefn x y = (\<not> jgt (sortCompare comparefn x y) (Fin 0))"

fun insert_sorted :: "('a \<Rightarrow> 'a \<Rightarrow> jsnum) \<Rightarrow> 'a \<Rightarrow> 'a list \<Rightarrow> 'a list" where
  "insert_sorted comparefn x [] = [x]"
| "insert_sorted comparefn x (y # ys) =
     (if notAfter comparefn x y then x # y # ys else y # insert_sorted comparefn x ys)"

fun array_sort :: "('a \<Rightarrow> 'a \<Rightarrow> jsnum) \<Rightarrow> 'a list \<Rightarrow> 'a list" where
  "array_sort comparefn [] = []"
| "array_sort comparefn (x # xs) = insert_sorted comparefn x (array_sort comparefn xs)"

text \<open>\<^verbatim>\<open>xs.slice(s, e)\<close> for non-negative \<open>s\<close> and \<open>e\<close>.\<close>

definition slice :: "nat \<Rightarrow> nat \<Rightarrow> 'a list \<Rightarrow> 'a list" where
  "slice s e xs = drop s (take e xs)"

section \<open>Records of the panel\<close>

datatype level = none | watch | warning

record feature =
  area_id :: string
  area_name :: "string option"
  month :: string
  theft_count :: "jsnum option"
  exposure :: "jsnum option"
  risk_index :: "jsnum option"
  stability_flag :: "bool option"

record enriched = feature +
  alert_spike :: bool
  alert_trend3 :: bool
  alert_level :: level

section \<open>recomputeAlerts\<close>

definition BASELINE_WINDOW :: nat where
  "BASELINE_WINDOW = 6"

definition MIN_PERIODS :: nat where
  "MIN_PERIODS = 3"

text \<open>
  \<^verbatim>\<open>a.localeCompare(b)\<close> orders strings by the collation of the host's locale. The
  collation is a parameter: \<open>collate\<close> maps a string to its sort key.
\<close>

definition localeCompare :: "(string \<Rightarrow> 'k::linorder) \<Rightarrow> string \<Rightarrow> string \<Rightarrow> jsnum" where
  "localeCompare collate a b =
     (if collate a < collate b then Fin (- 1) else if collate b < collate a then Fin 1 else Fin 0)"

text \<open>
  The \<^verbatim>\<open>Map\<close> from area to rows, in insertion order: a new area goes to the end, a row
  of a known area is pushed on that area's array.
\<close>

fun push_row :: "feature \<Rightarrow> (string \<times> feature list) list \<Rightarrow> (string \<times> feature list) list" where
  "push_row f [] = [(area_id f, [f])]"
| "push_row f ((k, rows) # m) =
     (if k = area_id f then (k, rows @ [f]) # m else (k, rows) # push_row f m)"

definition byArea :: "feature list \<Rightarrow> (string \<times> feature list) list" where
  "byArea features = foldl (\<lambda>m f. push_row f m) [] features"

definition history :: "feature list \<Rightarrow> nat \<Rightarrow> jsnum list" where
  "history sorted_rows t =
     List.map_filter risk_index
       (slice (nat (max 0 (int t - int BASELINE_WINDOW))) t sorted_rows)"

definition baseline :: "feature list \<Rightarrow> nat \<Rightarrow> jsnum option" where
  "baseline sorted_rows t =
     (let h = history sorted_rows t in
      if length h \<ge> MIN_PERIODS
      then Some (jdiv (foldl jadd (Fin 0) h) (Fin (of_nat (length h))))
      else None)"

definition alertSpike :: "feature list \<Rightarrow> jsnum \<Rightarrow> nat \<Rightarrow> bool" where
  "alertSpike sorted_rows threshold t =
     (case (baseline sorted_rows t, risk_index (sorted_rows ! t)) of
        (Some b, Some ri) \<Rightarrow> jgt ri (jmul b (jadd (Fin 1) threshold))
      | _ \<Rightarrow> False)"

definition alertTrend3 :: "feature list \<Rightarrow> nat \<Rightarrow> bool" where
  "alertTrend3 sorted_rows t =
     (let ri = risk_index (sorted_rows ! t);
          riPrev1 = (if t \<ge> 1 then risk_index (sorted_rows ! (t - 1)) else None);
          riPrev2 = (if t \<ge> 2 then risk_index (sorted_rows ! (t - 2)) else None)
      in case (ri, riPrev1, riPrev2) of
           (Some r, Some p1, Some p2) \<Rightarrow> jgt r p1 \<and> jgt p1 p2
         | _ \<Rightarrow> False)"

definition alertLevel :: "bool \<Rightarrow> bool \<Rightarrow> level" where
  "alertLevel spike trend3 =
     (let n = (if spike then 1 else 0) + (if trend3 then 1 else (0::nat))
      in if n = 0 then none else if n = 1 then watch else warning)"

text \<open>The body of the loop over \<open>t\<close>: the row at \<open>t\<close> with its three derived fields.\<close>

definition enrich :: "feature list \<Rightarrow> jsnum \<Rightarrow> nat \<Rightarrow> enriched" where
  "enrich sorted_rows threshold t =
     (let spike = alertSpike sorted_rows threshold t;
          trend3 = alertTrend3 sorted_rows t
      in feature.extend (sorted_rows ! t)
           (enriched.fields spike trend3 (alertLevel spike trend3)))"

definition enrich_group :: "(string \<Rightarrow> 'k::linorder) \<Rightarrow> jsnum \<Rightarrow> feature list \<Rightarrow> enriched list" where
  "enrich_group collate threshold rows =
     (let sorted_rows = array_sort (\<lambda>a b. localeCompare collate (month a) (month b)) rows
      in map (enrich sorted_rows threshold) [0 ..< length sorted_rows])"

text \<open>The argument is \<open>None\<close> when \<^verbatim>\<open>features\<close> is null or undefined.\<close>

definition recomputeAlerts ::
  "(string \<Rightarrow> 'k::linorder) \<Rightarrow> feature list option \<Rightarrow> jsnum \<Rightarrow> enriched list" where
  "recomputeAlerts collate features threshold =
     (case features of
        None \<Rightarrow> []
      | Some fs \<Rightarrow>
          if length fs = 0 then []
          else concat (map (\<lambda>(k, rows). enrich_group collate threshold rows) (byArea fs)))"

section \<open>deltaFeatures\<close>

text \<open>\<^verbatim>\<open>v ?? d\<close>: the default \<open>d\<close> when \<open>v\<close> is null or undefined.\<close>

definition coalesce :: "'a option \<Rightarrow> 'a \<Rightarrow> 'a" where
  "coalesce v d = (case v of None \<Rightarrow> d | Some x \<Rightarrow> x)"

text \<open>
  \<^verbatim>\<open>+x.toFixed(4)\<close>. For a finite \<open>x\<close> below \<open>10^21\<close> in magnitude, \<^verbatim>\<open>toFixed\<close>
  prints the integer \<open>n\<close> with \<open>n / 10^4\<close> closest to \<open>\<bar>x\<bar>\<close>, the larger one on a tie,
  after the sign; from \<open>10^21\<close> on, and for NaN and the infinities, it prints the number
  itself. The unary plus reads the string back.
\<close>

fun round4 :: "jsnum \<Rightarrow> jsnum" where
  "round4 (Fin q) =
     (if \<bar>q\<bar> \<ge> 10 ^ 21 then Fin q
      else Fin (sgn q * of_int \<lfloor>\<bar>q\<bar> * 10 ^ 4 + 1 / 2\<rfloor> / 10 ^ 4))"
| "round4 x = x"

text \<open>
  A plain object with string keys: the own properties in insertion order.
  \<^verbatim>\<open>Object.fromEntries\<close> defines the properties one by one, the value of a key that is
  already there being replaced in place. \<^verbatim>\<open>Object.keys\<close> lists first the keys that are
  array indices (canonical decimal numerals below \<open>2^32 - 1 = 4294967295\<close>), ascending, then the
  others in insertion order.
\<close>

type_synonym 'v obj = "(string \<times> 'v) list"

fun createDataProperty :: "string \<Rightarrow> 'v \<Rightarrow> 'v obj \<Rightarrow> 'v obj" where
  "createDataProperty k v [] = [(k, v)]"
| "createDataProperty k v ((k', v') # m) =
     (if k' = k then (k, v) # m else (k', v') # createDataProperty k v m)"

definition fromEntries :: "(string \<times> 'v) list \<Rightarrow> 'v obj" where
  "fromEntries entries = foldl (\<lambda>m (k, v). createDataProperty k v m) [] entries"

definition is_digit :: "char \<Rightarrow> bool" where
  "is_digit c = (CHR ''0'' \<le> c \<and> c \<le> CHR ''9'')"

definition numeral_value :: "string \<Rightarrow> int" where
  "numeral_value s = foldl (\<lambda>n c. 10 * n + (of_char c - of_char CHR ''0'')) 0 s"

definition is_array_index :: "string \<Rightarrow> bool" where
  "is_array_index s =
     (s \<noteq> [] \<and> list_all is_digit s \<and> (s = ''0'' \<or> hd s \<noteq> CHR ''0'') \<and>
      numeral_value s < 4294967295)"

definition Object_keys :: "'v obj \<Rightarrow> string list" where
  "Object_keys m =
     (let ks = map fst m
      in sort_key numeral_value (filter is_array_index ks) @
         filter (\<lambda>k. \<not> is_array_index k) ks)"

definition get :: "'v obj \<Rightarrow> string \<Rightarrow> 'v option" where
  "get m k = map_of m k"

text \<open>\<^verbatim>\<open>[...new Set(xs)]\<close>: the values in insertion order, each once.\<close>

definition Set_values :: "'a list \<Rightarrow> 'a list" where
  "Set_values xs = foldl (\<lambda>s x. if x \<in> set s then s else s @ [x]) [] xs"

record delta =
  area_id_d :: string
  area_name_d :: string
  delta_risk_index :: "jsnum option"
  delta_count :: jsnum
  risk_index_a :: "jsnum option"
  risk_index_b :: "jsnum option"
  theft_count_a :: jsnum
  theft_count_b :: jsnum
  alert_level_d :: level
  stability_flag_d :: bool

definition byArea_month :: "enriched list \<Rightarrow> string \<Rightarrow> enriched obj" where
  "byArea_month recomputedFeatures m =
     fromEntries (map (\<lambda>f. (area_id f, f)) (filter (\<lambda>f. month f = m) recomputedFeatures))"

text \<open>
  One row of the result. \<open>a\<close> and \<open>b\<close> are \<open>None\<close> where the source takes the empty
  object \<^verbatim>\<open>{}\<close>, every field of which is undefined. A key that the object only
  inherits (such as \<^verbatim>\<open>constructor\<close>) yields a value with none of the fields read here,
  so it reads like \<^verbatim>\<open>{}\<close>.
\<close>

definition delta_row :: "enriched obj \<Rightarrow> enriched obj \<Rightarrow> string \<Rightarrow> delta" where
  "delta_row aMap bMap ident =
     (let a = get aMap ident;
          b = get bMap ident;
          riA = Option.bind a risk_index;
          riB = Option.bind b risk_index
      in \<lparr> area_id_d = ident,
           area_name_d = coalesce (Option.bind a area_name) (coalesce (Option.bind b area_name) []),
           delta_risk_index =
             (case (riA, riB) of
                (Some x, Some y) \<Rightarrow> Some (round4 (jsub y x))
              | _ \<Rightarrow> None),
           delta_count =
             jsub (coalesce (Option.bind b theft_count) (Fin 0))
                  (coalesce (Option.bind a theft_count) (Fin 0)),
           risk_index_a = riA,
           risk_index_b = riB,
           theft_count_a = coalesce (Option.bind a theft_count) (Fin 0),
           theft_count_b = coalesce (Option.bind b theft_count) (Fin 0),
           alert_level_d = coalesce (map_option alert_level b) none,
           stability_flag_d = coalesce (Option.bind b stability_flag) False \<rparr>)"

text \<open>
  \<^verbatim>\<open>recomputedFeatures\<close> is always an array, hence truthy. The empty string is the
  falsy month: no month selected yet.
\<close>

definition deltaFeatures :: "enriched list \<Rightarrow> string \<Rightarrow> string \<Rightarrow> delta list" where
  "deltaFeatures recomputedFeatures monthA monthB =
     (if monthA = [] \<or> monthB = [] \<or> monthA = monthB then []
      else
        let aMap = byArea_month recomputedFeatures monthA;
            bMap = byArea_month recomputedFeatures monthB;
            allIds = Set_values (Object_keys aMap @ Object_keys bMap)
        in map (delta_row aMap bMap) allIds)"

section \<open>rankedTopN\<close>

text \<open>
  \<open>metric\<close> reads the field \<^verbatim>\<open>f[metric]\<close>, a number or \<open>None\<close> for null and undefined;
  \<open>level_of\<close> reads \<^verbatim>\<open>f.alert_level\<close>, \<open>None\<close> when the field is absent. The source is
  either the rows of the current month or the delta rows.
\<close>

definition has_metric :: "('r \<Rightarrow> jsnum option) \<Rightarrow> 'r \<Rightarrow> bool" where
  "has_metric metric f = (case metric f of None \<Rightarrow> False | Some v \<Rightarrow> \<not> isNaN v)"

definition is_alert :: "('r \<Rightarrow> level option) \<Rightarrow> 'r \<Rightarrow> bool" where
  "is_alert level_of f = (case level_of f of None \<Rightarrow> False | Some l \<Rightarrow> l \<noteq> none)"

definition by_metric_desc :: "('r \<Rightarrow> jsnum option) \<Rightarrow> 'r \<Rightarrow> 'r \<Rightarrow> jsnum" where
  "by_metric_desc metric a b = jsub (coalesce (metric b) NInf) (coalesce (metric a) NInf)"

definition rankedTopN ::
  "('r \<Rightarrow> jsnum option) \<Rightarrow> ('r \<Rightarrow> level option) \<Rightarrow> bool \<Rightarrow> 'r list \<Rightarrow> 'r list" where
  "rankedTopN metric level_of filterAlertsOnly source =
     slice 0 10
       (array_sort (by_metric_desc metric)
          (filter (\<lambda>f. \<not> filterAlertsOnly \<or> is_alert level_of f)
             (filter (has_metric metric) source)))"

section \<open>Notions of the specification\<close>

text \<open>The distinct elements of a list in the order of their first appearance.\<close>

fun first_seen :: "'a list \<Rightarrow> 'a list" where
  "first_seen [] = []"
| "first_seen (x # xs) = x # removeAll x (first_seen xs)"

text \<open>The records of one area in an output, in output order.\<close>

definition area_group :: "string \<Rightarrow> enriched list \<Rightarrow> enriched list" where
  "area_group a out = filter (\<lambda>r. area_id r = a) out"


definition arithmetic_mean :: "jsnum list \<Rightarrow> jsnum" where
  "arithmetic_mean vs = jdiv (foldr jadd vs (Fin 0)) (Fin (of_nat (length vs)))"


text \<open>\<open>a\<close> is not below \<open>b\<close>: the order of a descending list of numbers.\<close>

definition jge :: "jsnum \<Rightarrow> jsnum \<Rightarrow> bool" where
  "jge a b = (a = b \<or> jgt a b)"

text \<open>The rows of one area in the order the loop over \<open>t\<close> reads them.\<close>

definition sorted_group :: "(string \<Rightarrow> 'k::linorder) \<Rightarrow> feature list \<Rightarrow> feature list" where
  "sorted_group collate rows = array_sort (\<lambda>a b. localeCompare collate (month a) (month b)) rows"

section \<open>Example inputs\<close>

definition panel_row :: "string \<Rightarrow> string \<Rightarrow> nat \<Rightarrow> jsnum option \<Rightarrow> feature" where
  "panel_row a m n r =
     \<lparr> area_id = a, area_name = Some a, month = m, theft_count = Some (Fin (of_nat n)),
       exposure = Some (Fin 1), risk_index = r, stability_flag = Some False \<rparr>"

text \<open>
  Area \<open>X\<close> has risk 1 for six months and then 3; area \<open>Y\<close> rises over four months.
  The rows are out of order and interleaved.
\<close>

definition example_panel :: "feature list" where
  "example_panel =
     [panel_row ''X'' ''2024-07'' 9 (Some (Fin 3)),
      panel_row ''Y'' ''2024-01'' 4 (Some (Fin (4 / 5))),
      panel_row ''X'' ''2024-01'' 3 (Some (Fin 1)),
      panel_row ''X'' ''2024-02'' 3 (Some (Fin 1)),
      panel_row ''Y'' ''2024-02'' 5 (Some (Fin 1)),
      panel_row ''X'' ''2024-03'' 3 (Some (Fin 1)),
      panel_row ''X'' ''2024-04'' 3 (Some (Fin 1)),
      panel_row ''Y'' ''2024-03'' 6 (Some (Fin (13 / 10))),
      panel_row ''X'' ''2024-05'' 3 (Some (Fin 1)),
      panel_row ''X'' ''2024-06'' 3 (Some (Fin 1)),
      panel_row ''Y'' ''2024-04'' 8 (Some (Fin (5 / 2)))]"

definition example_out :: "enriched list" where
  "example_out = recomputeAlerts (\<lambda>s. s) (Some example_panel) (Fin (1 / 2))"

text \<open>Three enriched rows: area \<open>X\<close> in April and July, area \<open>Y\<close> in April only.\<close>

definition enriched_row ::
  "string \<Rightarrow> string \<Rightarrow> nat \<Rightarrow> jsnum option \<Rightarrow> bool \<Rightarrow> bool \<Rightarrow> enriched" where
  "enriched_row a m n r spike trend3 =
     feature.extend (panel_row a m n r) (enriched.fields spike trend3 (alertLevel spike trend3))"

definition example_rows :: "enriched list" where
  "example_rows =
     [enriched_row ''X'' ''2024-07'' 9 (Some (Fin 3)) True False,
      enriched_row ''Y'' ''2024-04'' 8 (Some (Fin (5 / 2))) True True,
      enriched_row ''X'' ''2024-04'' 3 (Some (Fin 1)) False False]"

section \<open>Arithmetic of the number model\<close>

lemma jadd_assoc: "jadd (jadd x y) z = jadd x (jadd y z)"
  by (cases x; cases y; cases z; simp add: add.assoc)

lemma jadd_zero_right: "jadd x (Fin 0) = x"
  by (cases x; simp)

lemma foldl_jadd: "foldl jadd a xs = jadd a (foldr jadd xs (Fin 0))"
  by (induction xs arbitrary: a) (simp_all add: jadd_assoc jadd_zero_right)

lemma foldl_jadd_zero: "foldl jadd (Fin 0) xs = foldr jadd xs (Fin 0)"
proof -
  have "jadd (Fin 0) y = y" for y by (cases y; simp)
  then show ?thesis by (simp add: foldl_jadd)
qed

lemma foldr_jadd_Fin: "foldr jadd (map Fin qs) (Fin 0) = Fin (sum_list qs)"
  by (induction qs) simp_all

lemma arithmetic_mean_Fin:
  "qs \<noteq> [] \<Longrightarrow> arithmetic_mean (map Fin qs) = Fin (sum_list qs / of_nat (length qs))"
  by (simp add: arithmetic_mean_def foldr_jadd_Fin)

section \<open>The sort\<close>

lemma mset_insert_sorted: "mset (insert_sorted c x ys) = add_mset x (mset ys)"
  by (induction ys) simp_all

lemma mset_array_sort: "mset (array_sort c xs) = mset xs"
  by (induction xs) (simp_all add: mset_insert_sorted)

lemma set_array_sort: "set (array_sort c xs) = set xs"
  by (metis mset_array_sort set_mset_mset)

lemma length_array_sort: "length (array_sort c xs) = length xs"
  by (metis mset_array_sort size_mset)

lemma set_insert_sorted: "set (insert_sorted c x ys) = insert x (set ys)"
  by (induction ys) auto

lemma sorted_wrt_insert_sorted:
  assumes tot: "\<And>y. y \<in> set ys \<Longrightarrow> notAfter c x y \<or> notAfter c y x"
    and tr: "\<And>y z. y \<in> set ys \<Longrightarrow> z \<in> set ys \<Longrightarrow> notAfter c x y \<Longrightarrow> notAfter c y z \<Longrightarrow> notAfter c x z"
    and srt: "sorted_wrt (notAfter c) ys"
  shows "sorted_wrt (notAfter c) (insert_sorted c x ys)"
  using assms
proof (induction ys)
  case Nil
  show ?case by simp
next
  case (Cons y ys)
  have srt_ys: "sorted_wrt (notAfter c) ys"
    and y_le: "\<And>z. z \<in> set ys \<Longrightarrow> notAfter c y z"
    using Cons.prems(3) by simp_all
  show ?case
  proof (cases "notAfter c x y")
    case True
    have "notAfter c x z" if "z \<in> set ys" for z
      using Cons.prems(2) [of y z] True y_le [OF that] that by simp
    then show ?thesis
      using True Cons.prems(3) by simp
  next
    case False
    have yx: "notAfter c y x"
      using Cons.prems(1) [of y] False by simp
    have "sorted_wrt (notAfter c) (insert_sorted c x ys)"
    proof (rule Cons.IH [OF _ _ srt_ys])
      show "notAfter c x z \<or> notAfter c z x" if "z \<in> set ys" for z
        using Cons.prems(1) [of z] that by simp
      show "notAfter c x w" if "z \<in> set ys" "w \<in> set ys" "notAfter c x z" "notAfter c z w" for z w
        using Cons.prems(2) [of z w] that by simp
    qed
    then show ?thesis
      using False yx y_le by (simp add: set_insert_sorted)
  qed
qed

lemma sorted_wrt_array_sort:
  assumes tot: "\<And>x y. x \<in> set xs \<Longrightarrow> y \<in> set xs \<Longrightarrow> notAfter c x y \<or> notAfter c y x"
    and tr: "\<And>x y z. x \<in> set xs \<Longrightarrow> y \<in> set xs \<Longrightarrow> z \<in> set xs \<Longrightarrow>
               notAfter c x y \<Longrightarrow> notAfter c y z \<Longrightarrow> notAfter c x z"
  shows "sorted_wrt (notAfter c) (array_sort c xs)"
  using assms
proof (induction xs)
  case Nil
  show ?case by simp
next
  case (Cons x xs)
  have srt: "sorted_wrt (notAfter c) (array_sort c xs)"
  proof (rule Cons.IH)
    show "notAfter c u v \<or> notAfter c v u" if "u \<in> set xs" "v \<in> set xs" for u v
      using that Cons.prems(1) [of u v] by simp
    show "notAfter c u w" if "u \<in> set xs" "v \<in> set xs" "w \<in> set xs" "notAfter c u v" "notAfter c v w" for u v w
      using that Cons.prems(2) [of u v w] by simp
  qed
  have "sorted_wrt (notAfter c) (insert_sorted c x (array_sort c xs))"
  proof (rule sorted_wrt_insert_sorted [OF _ _ srt])
    show "notAfter c x y \<or> notAfter c y x" if "y \<in> set (array_sort c xs)" for y
      using that Cons.prems(1) [of x y] by (simp add: set_array_sort)
    show "notAfter c x z"
      if "y \<in> set (array_sort c xs)" "z \<in> set (array_sort c xs)" "notAfter c x y" "notAfter c y z" for y z
      using that Cons.prems(2) [of x y z] by (simp add: set_array_sort)
  qed
  then show ?case by simp
qed

lemma filter_insert_sorted:
  assumes "\<And>y. y \<in> set ys \<Longrightarrow> P x \<Longrightarrow> P y \<Longrightarrow> notAfter c x y"
  shows "filter P (insert_sorted c x ys) = (if P x then x # filter P ys else filter P ys)"
  using assms by (induction ys) auto

lemma filter_array_sort:
  assumes "\<And>x y. x \<in> set xs \<Longrightarrow> y \<in> set xs \<Longrightarrow> P x \<Longrightarrow> P y \<Longrightarrow> notAfter c x y"
  shows "filter P (array_sort c xs) = filter P xs"
  using assms
proof (induction xs)
  case Nil
  show ?case by simp
next
  case (Cons x xs)
  have IH: "filter P (array_sort c xs) = filter P xs"
    using Cons by (meson list.set_intros(2))
  have "filter P (insert_sorted c x (array_sort c xs)) =
          (if P x then x # filter P (array_sort c xs) else filter P (array_sort c xs))"
  proof (rule filter_insert_sorted)
    show "notAfter c x y" if "y \<in> set (array_sort c xs)" "P x" "P y" for y
      using that Cons.prems [of x y] by (simp add: set_array_sort)
  qed
  then show ?case by (simp add: IH)
qed




section \<open>Grouping by area\<close>

lemma set_first_seen: "set (first_seen xs) = set xs"
  by (induction xs) auto

lemma distinct_first_seen: "distinct (first_seen xs)"
  by (induction xs) (auto simp: distinct_removeAll)

lemma first_seen_snoc:
  "first_seen (xs @ [x]) = (if x \<in> set xs then first_seen xs else first_seen xs @ [x])"
  by (induction xs) auto

lemma push_row_map:
  "distinct ks \<Longrightarrow>
   push_row f (map (\<lambda>k. (k, R k)) ks) =
     (if area_id f \<in> set ks
      then map (\<lambda>k. (k, if k = area_id f then R k @ [f] else R k)) ks
      else map (\<lambda>k. (k, R k)) ks @ [(area_id f, [f])])"
  by (induction ks) auto

lemma byArea_snoc: "byArea (fs @ [f]) = push_row f (byArea fs)"
  by (simp add: byArea_def)

lemma byArea_eq:
  "byArea fs = map (\<lambda>k. (k, filter (\<lambda>f. area_id f = k) fs)) (first_seen (map area_id fs))"
proof (induction fs rule: rev_induct)
  case Nil
  show ?case by (simp add: byArea_def)
next
  case (snoc f fs)
  let ?ks = "first_seen (map area_id fs)"
  have dist: "distinct ?ks" by (rule distinct_first_seen)
  have "byArea (fs @ [f]) = push_row f (map (\<lambda>k. (k, filter (\<lambda>f. area_id f = k) fs)) ?ks)"
    by (simp add: byArea_snoc snoc.IH)
  also have "\<dots> = map (\<lambda>k. (k, filter (\<lambda>f. area_id f = k) (fs @ [f]))) (first_seen (map area_id (fs @ [f])))"
  proof (cases "area_id f \<in> set ?ks")
    case True
    then show ?thesis
      by (simp add: push_row_map [OF dist] first_seen_snoc set_first_seen)
  next
    case False
    then have "filter (\<lambda>g. area_id g = area_id f) fs = []"
      by (auto simp: filter_empty_conv set_first_seen intro: rev_image_eqI)
    with False show ?thesis
      by (auto simp: push_row_map [OF dist] first_seen_snoc set_first_seen)
  qed
  finally show ?case .
qed

section \<open>One area group\<close>

lemma extend_sel:
  "area_id (feature.extend r m) = area_id r"
  "month (feature.extend r m) = month r"
  "risk_index (feature.extend r m) = risk_index r"
  "feature.truncate (feature.extend r m) = r"
  by (simp_all add: feature.defs)

lemma extend_fields:
  "alert_spike (feature.extend r (enriched.fields s t l)) = s"
  "alert_trend3 (feature.extend r (enriched.fields s t l)) = t"
  "alert_level (feature.extend r (enriched.fields s t l)) = l"
  by (simp_all add: feature.defs enriched.defs)

lemma enrich_sel:
  "area_id (enrich rows th t) = area_id (rows ! t)"
  "month (enrich rows th t) = month (rows ! t)"
  "risk_index (enrich rows th t) = risk_index (rows ! t)"
  "feature.truncate (enrich rows th t) = rows ! t"
  "alert_spike (enrich rows th t) = alertSpike rows th t"
  "alert_trend3 (enrich rows th t) = alertTrend3 rows t"
  "alert_level (enrich rows th t) = alertLevel (alertSpike rows th t) (alertTrend3 rows t)"
  by (simp_all add: enrich_def Let_def extend_sel extend_fields)

lemma enrich_group_eq:
  "enrich_group c th rows = map (enrich (sorted_group c rows) th) [0 ..< length rows]"
  by (simp add: enrich_group_def Let_def sorted_group_def length_array_sort)

lemma length_sorted_group: "length (sorted_group c rows) = length rows"
  by (simp add: sorted_group_def length_array_sort)

lemma length_enrich_group: "length (enrich_group c th rows) = length rows"
  by (simp add: enrich_group_eq)

lemma nth_enrich_group:
  "t < length rows \<Longrightarrow> enrich_group c th rows ! t = enrich (sorted_group c rows) th t"
  by (simp add: enrich_group_eq)

lemma truncate_enrich_group:
  "map feature.truncate (enrich_group c th rows) = sorted_group c rows"
  by (rule nth_equalityI)
     (simp_all add: length_enrich_group length_sorted_group nth_enrich_group enrich_sel)

lemma mset_sorted_group: "mset (sorted_group c rows) = mset rows"
  by (simp add: sorted_group_def mset_array_sort)

lemma area_id_enrich_group:
  assumes "r \<in> set (enrich_group c th rows)"
  shows "area_id r \<in> area_id ` set rows"
proof -
  obtain t where t: "t < length rows" and r: "r = enrich (sorted_group c rows) th t"
    using assms by (auto simp: enrich_group_eq)
  have "sorted_group c rows ! t \<in> set (sorted_group c rows)"
    using t by (simp add: length_sorted_group)
  then have "sorted_group c rows ! t \<in> set rows"
    by (simp add: sorted_group_def set_array_sort)
  then show ?thesis by (simp add: r enrich_sel)
qed

lemma notAfter_localeCompare:
  "notAfter (\<lambda>a b. localeCompare c (month a) (month b)) x y = (c (month x) \<le> c (month y))"
  by (auto simp: notAfter_def sortCompare_def localeCompare_def isNaN_def Let_def)

lemma sorted_sorted_group: "sorted (map (\<lambda>r. c (month r)) (sorted_group c rows))"
proof -
  have srt: "sorted_wrt (notAfter (\<lambda>a b. localeCompare c (month a) (month b))) (sorted_group c rows)"
    unfolding sorted_group_def
    by (rule sorted_wrt_array_sort) (auto simp: notAfter_localeCompare)
  have "sorted_wrt (\<lambda>x y. c (month x) \<le> c (month y)) (sorted_group c rows)"
    by (rule sorted_wrt_mono_rel [OF _ srt]) (simp add: notAfter_localeCompare)
  then show ?thesis
    by (simp add: sorted_map)
qed

lemma month_enrich_group:
  "map (\<lambda>r. c' (month r)) (enrich_group c th rows) = map (\<lambda>r. c' (month r)) (sorted_group c rows)"
  by (rule nth_equalityI)
     (simp_all add: length_enrich_group length_sorted_group nth_enrich_group enrich_sel)

section \<open>The output of recomputeAlerts\<close>

lemma enrich_group_Nil: "enrich_group c th [] = []"
  by (simp add: enrich_group_eq)

lemma recomputeAlerts_eq:
  "recomputeAlerts c (Some fs) th =
     concat (map (\<lambda>k. enrich_group c th (filter (\<lambda>f. area_id f = k) fs))
                 (first_seen (map area_id fs)))"
  by (cases fs) (simp_all add: recomputeAlerts_def byArea_eq comp_def)

lemma filter_concat_key:
  assumes "distinct ks"
    and "\<And>k r. k \<in> set ks \<Longrightarrow> r \<in> set (G k) \<Longrightarrow> key r = k"
  shows "filter (\<lambda>r. key r = a) (concat (map G ks)) = (if a \<in> set ks then G a else [])"
  using assms
proof (induction ks)
  case Nil
  show ?case by simp
next
  case (Cons k ks)
  have IH: "filter (\<lambda>r. key r = a) (concat (map G ks)) = (if a \<in> set ks then G a else [])"
  proof (rule Cons.IH)
    show "distinct ks" using Cons.prems(1) by simp
    show "key r = k'" if "k' \<in> set ks" "r \<in> set (G k')" for k' r
      using Cons.prems(2) [of k' r] that by simp
  qed
  have here: "filter (\<lambda>r. key r = a) (G k) = (if a = k then G k else [])"
  proof (cases "a = k")
    case True
    have "\<forall>r\<in>set (G k). key r = a"
      using Cons.prems(2) [of k] True by simp
    then show ?thesis using True by simp
  next
    case False
    have "\<forall>r\<in>set (G k). key r \<noteq> a"
      using Cons.prems(2) [of k] False by auto
    then show ?thesis using False by (simp add: filter_empty_conv)
  qed
  show ?case
    using Cons.prems(1) by (auto simp: IH here)
qed

lemma area_group_recomputeAlerts:
  "area_group a (recomputeAlerts c (Some fs) th) =
     enrich_group c th (filter (\<lambda>f. area_id f = a) fs)"
proof -
  let ?G = "\<lambda>k. enrich_group c th (filter (\<lambda>f. area_id f = k) fs)"
  let ?ks = "first_seen (map area_id fs)"
  have "filter (\<lambda>r. area_id r = a) (concat (map ?G ?ks)) = (if a \<in> set ?ks then ?G a else [])"
  proof (rule filter_concat_key)
    show "distinct ?ks" by (rule distinct_first_seen)
    show "area_id r = k" if "k \<in> set ?ks" "r \<in> set (?G k)" for k r
      using area_id_enrich_group [OF that(2)] by auto
  qed
  moreover have "?G a = []" if "a \<notin> set ?ks"
  proof -
    have "filter (\<lambda>f. area_id f = a) fs = []"
      using that by (auto simp: filter_empty_conv set_first_seen)
    then show ?thesis by (simp add: enrich_group_Nil)
  qed
  ultimately show ?thesis
    by (simp add: area_group_def recomputeAlerts_eq)
qed

lemma sum_list_bump:
  "sum_list (map (\<lambda>k. if k0 = k then Suc (n k) else n k) ks) =
     sum_list (map n ks) + count_list ks k0"
  by (induction ks) auto

lemma count_list_distinct:
  "distinct ks \<Longrightarrow> k \<in> set ks \<Longrightarrow> count_list ks k = 1"
  by (induction ks) auto

lemma sum_length_filter:
  assumes "distinct ks" and "key ` set fs \<subseteq> set ks"
  shows "sum_list (map (\<lambda>k. length (filter (\<lambda>f. key f = k) fs)) ks) = length fs"
  using assms(2)
proof (induction fs)
  case Nil
  show ?case by simp
next
  case (Cons f fs)
  have "count_list ks (key f) = 1"
    using Cons.prems assms(1) by (intro count_list_distinct) auto
  moreover have "sum_list (map (\<lambda>k. length (filter (\<lambda>f. key f = k) fs)) ks) = length fs"
    using Cons by simp
  moreover have "length (filter (\<lambda>g. key g = k) (f # fs)) =
      (if key f = k then Suc (length (filter (\<lambda>g. key g = k) fs))
       else length (filter (\<lambda>g. key g = k) fs))" for k
    by simp
  ultimately show ?case
    by (simp only: sum_list_bump list.size)
qed

lemma length_recomputeAlerts: "length (recomputeAlerts c (Some fs) th) = length fs"
proof -
  have "length (recomputeAlerts c (Some fs) th) =
      sum_list (map (\<lambda>k. length (filter (\<lambda>f. area_id f = k) fs)) (first_seen (map area_id fs)))"
    by (simp add: recomputeAlerts_eq length_concat comp_def length_enrich_group)
  also have "\<dots> = length fs"
    by (rule sum_length_filter) (simp_all add: distinct_first_seen set_first_seen)
  finally show ?thesis .
qed

lemma concat_area_groups:
  "recomputeAlerts c (Some fs) th =
     concat (map (\<lambda>a. area_group a (recomputeAlerts c (Some fs) th)) (first_seen (map area_id fs)))"
  by (subst recomputeAlerts_eq) (simp only: area_group_recomputeAlerts)

section \<open>The signals of one record\<close>

lemma risk_index_group:
  "i < length rows \<Longrightarrow>
   risk_index (enrich_group c th rows ! i) = risk_index (sorted_group c rows ! i)"
  by (simp add: nth_enrich_group enrich_sel)



lemma length_history: "t \<le> length rows \<Longrightarrow> length (history rows t) \<le> t"
proof -
  assume "t \<le> length rows"
  have "length (history rows t) \<le> length (slice (nat (max 0 (int t - int BASELINE_WINDOW))) t rows)"
    by (simp add: history_def List.map_filter_def)
  also have "\<dots> \<le> t"
    by (simp add: slice_def)
  finally show ?thesis .
qed

lemma alertSpike_iff:
  "alertSpike rows th t =
     (3 \<le> length (history rows t) \<and>
      (case risk_index (rows ! t) of
         None \<Rightarrow> False
       | Some ri \<Rightarrow> jgt ri (jmul (arithmetic_mean (history rows t)) (jadd (Fin 1) th))))"
  by (simp add: alertSpike_def baseline_def Let_def MIN_PERIODS_def arithmetic_mean_def
        foldl_jadd_zero split: option.splits)

lemma alertTrend3_iff:
  "alertTrend3 rows t =
     (2 \<le> t \<and>
      (case (risk_index (rows ! (t - 2)), risk_index (rows ! (t - 1)), risk_index (rows ! t)) of
         (Some x, Some y, Some z) \<Rightarrow> jlt x y \<and> jlt y z
       | _ \<Rightarrow> False))"
  by (auto simp: alertTrend3_def Let_def jlt_def split: option.splits)

lemma alertLevel_cases:
  "(alertLevel s t = warning) = (s \<and> t)"
  "(alertLevel s t = watch) = (s \<noteq> t)"
  "(alertLevel s t = none) = (\<not> s \<and> \<not> t)"
  by (auto simp: alertLevel_def)

lemma in_recomputeAlerts:
  assumes "r \<in> set (recomputeAlerts c features th)"
  shows "\<exists>rows t. r = enrich rows th t"
proof (cases features)
  case None
  then show ?thesis using assms by (simp add: recomputeAlerts_def)
next
  case (Some fs)
  then obtain k where "r \<in> set (enrich_group c th (filter (\<lambda>f. area_id f = k) fs))"
    using assms by (auto simp: recomputeAlerts_eq)
  then show ?thesis by (auto simp: enrich_group_eq)
qed

section \<open>Properties of recomputeAlerts\<close>



text \<open>
  C3. The output has as many records as the input. It is the concatenation of one group
  per \<open>area_id\<close>, the groups in the order in which the areas first appear in the input;
  each group holds the input records of its area, as many as the input has, in ascending
  order of month.
\<close>

theorem recomputeAlerts_groups:
  "length (recomputeAlerts collate (Some fs) threshold) = length fs \<and>
   recomputeAlerts collate (Some fs) threshold =
     concat (map (\<lambda>a. area_group a (recomputeAlerts collate (Some fs) threshold))
                 (first_seen (map area_id fs))) \<and>
   (\<forall>a. sorted (map (\<lambda>r. collate (month r))
                  (area_group a (recomputeAlerts collate (Some fs) threshold)))) \<and>
   (\<forall>a. mset (map feature.truncate (area_group a (recomputeAlerts collate (Some fs) threshold))) =
        mset (filter (\<lambda>f. area_id f = a) fs)) \<and>
   (\<forall>a. length (area_group a (recomputeAlerts collate (Some fs) threshold)) =
        length (filter (\<lambda>f. area_id f = a) fs))"
proof -
  have "sorted (map (\<lambda>r. collate (month r))
                (area_group a (recomputeAlerts collate (Some fs) threshold)))" for a
    by (simp only: area_group_recomputeAlerts month_enrich_group sorted_sorted_group)
  moreover have "mset (map feature.truncate (area_group a (recomputeAlerts collate (Some fs) threshold))) =
        mset (filter (\<lambda>f. area_id f = a) fs)" for a
    by (simp only: area_group_recomputeAlerts truncate_enrich_group mset_sorted_group)
  moreover have "length (area_group a (recomputeAlerts collate (Some fs) threshold)) =
        length (filter (\<lambda>f. area_id f = a) fs)" for a
    by (simp only: area_group_recomputeAlerts length_enrich_group)
  ultimately show ?thesis
    using length_recomputeAlerts [of collate fs threshold] concat_area_groups [of collate fs threshold]
    by blast
qed

text \<open>
  C4. In the output, for the records \<open>g\<close> of one area and a position \<open>t\<close> among them,
  \<open>alert_trend3\<close> holds exactly when the records at \<open>t - 2\<close>, \<open>t - 1\<close> and \<open>t\<close> exist, all
  three have a \<open>risk_index\<close>, and the three values rise strictly. A null at \<open>t - 1\<close> or
  \<open>t - 2\<close> makes it false whatever lies further back.
\<close>

theorem alert_trend3_iff_rising:
  assumes "g = area_group a (recomputeAlerts collate (Some fs) threshold)"
    and "t < length g"
  shows "alert_trend3 (g ! t) \<longleftrightarrow>
           2 \<le> t \<and>
           (case (risk_index (g ! (t - 2)), risk_index (g ! (t - 1)), risk_index (g ! t)) of
              (Some x, Some y, Some z) \<Rightarrow> jlt x y \<and> jlt y z
            | _ \<Rightarrow> False)"
proof -
  let ?rows = "filter (\<lambda>f. area_id f = a) fs"
  have g: "g = enrich_group collate threshold ?rows"
    by (simp add: assms(1) area_group_recomputeAlerts)
  have t: "t < length ?rows"
    using assms(2) by (simp add: g length_enrich_group)
  have tr: "alert_trend3 (g ! t) = alertTrend3 (sorted_group collate ?rows) t"
    by (simp add: g nth_enrich_group [OF t] enrich_sel)
  have ri: "risk_index (sorted_group collate ?rows ! i) = risk_index (g ! i)" if "i \<le> t" for i
    using that t by (simp add: g risk_index_group)
  have r0: "risk_index (sorted_group collate ?rows ! t) = risk_index (g ! t)"
    and r1: "risk_index (sorted_group collate ?rows ! (t - 1)) = risk_index (g ! (t - 1))"
    and r2: "risk_index (sorted_group collate ?rows ! (t - 2)) = risk_index (g ! (t - 2))"
    by (rule ri; simp)+
  show ?thesis
    unfolding tr alertTrend3_iff r0 r1 r2 by (rule refl)
qed

theorem alert_trend3_iff_rising_witness:
  "2 < length (area_group ''Y'' example_out) \<and>
   alert_trend3 (area_group ''Y'' example_out ! 2) \<and>
   \<not> alert_trend3 (area_group ''Y'' example_out ! 1)"
proof -
  have g: "area_group ''Y'' example_out =
      area_group ''Y'' (recomputeAlerts (\<lambda>s. s) (Some example_panel) (Fin (1 / 2)))"
    by (simp add: example_out_def)
  have t2: "2 < length (area_group ''Y'' example_out)" by code_simp
  have t1: "1 < length (area_group ''Y'' example_out)" by code_simp
  have r: "risk_index (area_group ''Y'' example_out ! 0) = Some (Fin (4 / 5))"
    "risk_index (area_group ''Y'' example_out ! 1) = Some (Fin 1)"
    "risk_index (area_group ''Y'' example_out ! 2) = Some (Fin (13 / 10))"
    by code_simp+
  have "alert_trend3 (area_group ''Y'' example_out ! 2)"
    using alert_trend3_iff_rising [OF g t2] r by (simp add: jlt_def)
  moreover have "\<not> alert_trend3 (area_group ''Y'' example_out ! 1)"
    using alert_trend3_iff_rising [OF g t1] by simp
  ultimately show ?thesis using t2 by simp
qed

text \<open>
  C5. Every output record has the level that its two signals give: \<open>warning\<close> exactly
  when both hold, \<open>watch\<close> exactly when one of them holds, \<open>none\<close> exactly when neither
  does.
\<close>

theorem alert_level_classification:
  "\<forall>r \<in> set (recomputeAlerts collate features threshold).
     alert_level r = alertLevel (alert_spike r) (alert_trend3 r) \<and>
     (alert_level r = warning \<longleftrightarrow> alert_spike r \<and> alert_trend3 r) \<and>
     (alert_level r = watch \<longleftrightarrow> alert_spike r \<noteq> alert_trend3 r) \<and>
     (alert_level r = none \<longleftrightarrow> \<not> alert_spike r \<and> \<not> alert_trend3 r)"
proof
  fix r
  assume "r \<in> set (recomputeAlerts collate features threshold)"
  then obtain rows t where r: "r = enrich rows threshold t"
    using in_recomputeAlerts by blast
  have "alert_level r = alertLevel (alert_spike r) (alert_trend3 r)"
    by (simp add: r enrich_sel)
  then show "alert_level r = alertLevel (alert_spike r) (alert_trend3 r) \<and>
     (alert_level r = warning \<longleftrightarrow> alert_spike r \<and> alert_trend3 r) \<and>
     (alert_level r = watch \<longleftrightarrow> alert_spike r \<noteq> alert_trend3 r) \<and>
     (alert_level r = none \<longleftrightarrow> \<not> alert_spike r \<and> \<not> alert_trend3 r)"
    by (simp add: alertLevel_cases)
qed

theorem alert_level_classification_witness:
  "map alert_level example_out =
     [none, none, none, none, none, none, watch, none, none, watch, warning] \<and>
   list_all (\<lambda>r. (alert_level r = warning \<longleftrightarrow> alert_spike r \<and> alert_trend3 r) \<and>
                 (alert_level r = watch \<longleftrightarrow> alert_spike r \<noteq> alert_trend3 r) \<and>
                 (alert_level r = none \<longleftrightarrow> \<not> alert_spike r \<and> \<not> alert_trend3 r))
     example_out"
proof -
  have "map alert_level example_out =
     [none, none, none, none, none, none, watch, none, none, watch, warning]"
    by code_simp
  moreover have "list_all (\<lambda>r. (alert_level r = warning \<longleftrightarrow> alert_spike r \<and> alert_trend3 r) \<and>
                 (alert_level r = watch \<longleftrightarrow> alert_spike r \<noteq> alert_trend3 r) \<and>
                 (alert_level r = none \<longleftrightarrow> \<not> alert_spike r \<and> \<not> alert_trend3 r))
     example_out"
    using alert_level_classification [of "\<lambda>s. s" "Some example_panel" "Fin (1 / 2)"]
    unfolding example_out_def list_all_iff by blast
  ultimately show ?thesis by (rule conjI)
qed

text \<open>
  C8. An absent input (null or undefined) and an empty input both give the empty output.
\<close>

theorem recomputeAlerts_empty:
  "recomputeAlerts collate None threshold = [] \<and> recomputeAlerts collate (Some []) threshold = []"
  by (simp add: recomputeAlerts_def)



text \<open>
  C10. In every area group of the output, the first three records have \<open>alert_spike\<close>
  false, and the first two also have \<open>alert_trend3\<close> false and the level \<open>none\<close>, whatever
  their \<open>risk_index\<close>.
\<close>

theorem first_records_quiet:
  assumes "g = area_group a (recomputeAlerts collate (Some fs) threshold)"
    and "t < length g"
  shows "(t < 3 \<longrightarrow> \<not> alert_spike (g ! t)) \<and>
         (t < 2 \<longrightarrow> \<not> alert_trend3 (g ! t) \<and> alert_level (g ! t) = none)"
proof -
  let ?rows = "filter (\<lambda>f. area_id f = a) fs"
  have g: "g = enrich_group collate threshold ?rows"
    by (simp add: assms(1) area_group_recomputeAlerts)
  have t: "t < length ?rows"
    using assms(2) by (simp add: g length_enrich_group)
  have gt: "g ! t = enrich (sorted_group collate ?rows) threshold t"
    by (simp add: g nth_enrich_group [OF t])
  have "length (history (sorted_group collate ?rows) t) \<le> t"
    using t by (intro length_history) (simp add: length_sorted_group)
  then have spike: "\<not> alertSpike (sorted_group collate ?rows) threshold t" if "t < 3"
    using that by (simp add: alertSpike_iff)
  have trend: "\<not> alertTrend3 (sorted_group collate ?rows) t" if "t < 2"
    using that by (simp add: alertTrend3_iff)
  show ?thesis
    using spike trend by (auto simp: gt enrich_sel alertLevel_cases)
qed

theorem first_records_quiet_witness:
  "risk_index (area_group ''Y'' example_out ! 1) = Some (Fin 1) \<and>
   \<not> alert_spike (area_group ''Y'' example_out ! 1) \<and>
   \<not> alert_trend3 (area_group ''Y'' example_out ! 1) \<and>
   alert_level (area_group ''Y'' example_out ! 1) = none \<and>
   \<not> alert_spike (area_group ''Y'' example_out ! 2)"
proof -
  have g: "area_group ''Y'' example_out =
      area_group ''Y'' (recomputeAlerts (\<lambda>s. s) (Some example_panel) (Fin (1 / 2)))"
    by (simp add: example_out_def)
  have t1: "1 < length (area_group ''Y'' example_out)" by code_simp
  have t2: "2 < length (area_group ''Y'' example_out)" by code_simp
  have r: "risk_index (area_group ''Y'' example_out ! 1) = Some (Fin 1)" by code_simp
  show ?thesis
    using first_records_quiet [OF g t1] first_records_quiet [OF g t2] r by simp
qed

section \<open>Objects and sets\<close>











section \<open>deltaFeatures\<close>





lemma round4_exact:
  assumes "\<bar>q\<bar> < 10 ^ 21"
  shows "\<exists>n::int. round4 (Fin q) = Fin (of_int n / 10 ^ 4) \<and> \<bar>of_int n / 10 ^ 4 - q\<bar> \<le> 1 / 20000"
proof -
  define n where "n = \<lfloor>\<bar>q\<bar> * 10 ^ 4 + 1 / 2\<rfloor>"
  have n: "of_int n \<le> \<bar>q\<bar> * 10000 + 1 / 2" "\<bar>q\<bar> * 10000 + 1 / 2 < of_int n + 1"
    unfolding n_def by (simp_all, linarith+)
  have r: "round4 (Fin q) = Fin (sgn q * of_int n / 10 ^ 4)"
    using assms by (simp add: n_def)
  show ?thesis
  proof (cases "q < 0")
    case True
    have a: "of_int n \<le> - q * 10000 + 1 / 2" "- q * 10000 + 1 / 2 < of_int n + 1"
      using n True by simp_all
    have "sgn q * of_int n / 10 ^ 4 = of_int (- n) / 10 ^ 4"
      using True by simp
    moreover have "\<bar>of_int (- n) / 10 ^ 4 - q\<bar> \<le> 1 / 20000"
    proof (rule abs_leI)
      show "of_int (- n) / 10 ^ 4 - q \<le> 1 / 20000"
        using a by (simp add: field_simps)
      show "- (of_int (- n) / 10 ^ 4 - q) \<le> 1 / 20000"
        using a by (simp add: field_simps)
    qed
    ultimately show ?thesis
      using r by (intro exI [of _ "- n"]) simp
  next
    case False
    have a: "of_int n \<le> q * 10000 + 1 / 2" "q * 10000 + 1 / 2 < of_int n + 1"
      using n False by simp_all
    show ?thesis
    proof (cases "q = 0")
      case True
      then show ?thesis
        using r by (intro exI [of _ 0]) simp
    next
      case pos: False
      have "sgn q * of_int n / 10 ^ 4 = of_int n / 10 ^ 4"
        using False pos by simp
      moreover have "\<bar>of_int n / 10 ^ 4 - q\<bar> \<le> 1 / 20000"
      proof (rule abs_leI)
        show "of_int n / 10 ^ 4 - q \<le> 1 / 20000"
          using a by (simp add: field_simps)
        show "- (of_int n / 10 ^ 4 - q) \<le> 1 / 20000"
          using a by (simp add: field_simps)
      qed
      ultimately show ?thesis
        using r by (intro exI [of _ n]) simp
    qed
  qed
qed



text \<open>
  C7. Comparing a month with itself gives the empty result.
\<close>

theorem deltaFeatures_same_month: "deltaFeatures rs m m = []"
  by (simp add: deltaFeatures_def)

section \<open>rankedTopN\<close>

lemma jge_total: "u \<noteq> NaN \<Longrightarrow> v \<noteq> NaN \<Longrightarrow> jge u v \<or> jge v u"
  by (cases u; cases v; auto simp: jge_def)

lemma jge_trans: "jge u v \<Longrightarrow> jge v w \<Longrightarrow> jge u w"
  by (cases u; cases v; cases w; auto simp: jge_def)

lemma notAfter_by_metric_desc:
  assumes "metric x = Some u" "metric y = Some v" "u \<noteq> NaN" "v \<noteq> NaN"
  shows "notAfter (by_metric_desc metric) x y = jge u v"
  using assms
  by (cases u; cases v;
      auto simp: notAfter_def sortCompare_def by_metric_desc_def coalesce_def jsub_def
        isNaN_def jge_def Let_def)

lemma has_metric_iff: "has_metric metric f = (\<exists>v. metric f = Some v \<and> v \<noteq> NaN)"
  by (auto simp: has_metric_def isNaN_def split: option.splits)

lemma is_alert_iff: "is_alert level_of f = (\<exists>l. level_of f = Some l \<and> l \<noteq> none)"
  by (auto simp: is_alert_def split: option.splits)

lemma sorted_by_metric_desc:
  assumes "\<forall>f \<in> set xs. has_metric metric f"
  shows "sorted_wrt (\<lambda>a b. jge (the (metric a)) (the (metric b))) (array_sort (by_metric_desc metric) xs)"
proof -
  have na: "notAfter (by_metric_desc metric) x y = jge (the (metric x)) (the (metric y))"
    if "x \<in> set xs" "y \<in> set xs" for x y
  proof -
    have "has_metric metric x" "has_metric metric y"
      using that assms by simp_all
    then obtain u v where "metric x = Some u" "u \<noteq> NaN" "metric y = Some v" "v \<noteq> NaN"
      unfolding has_metric_iff by blast
    then show ?thesis by (simp add: notAfter_by_metric_desc)
  qed
  have nn: "the (metric x) \<noteq> NaN" if "x \<in> set xs" for x
    using that assms by (auto simp: has_metric_iff)
  have "sorted_wrt (notAfter (by_metric_desc metric)) (array_sort (by_metric_desc metric) xs)"
  proof (rule sorted_wrt_array_sort)
    show "notAfter (by_metric_desc metric) x y \<or> notAfter (by_metric_desc metric) y x"
      if "x \<in> set xs" "y \<in> set xs" for x y
      using that jge_total [OF nn nn, of x y] by (simp add: na)
    show "notAfter (by_metric_desc metric) x z"
      if "x \<in> set xs" "y \<in> set xs" "z \<in> set xs"
        "notAfter (by_metric_desc metric) x y" "notAfter (by_metric_desc metric) y z" for x y z
      using that jge_trans [of "the (metric x)" "the (metric y)" "the (metric z)"]
      by (simp add: na)
  qed
  then show ?thesis
    by (rule sorted_wrt_mono_rel [rotated]) (simp add: na set_array_sort)
qed

lemma stable_by_metric_desc:
  assumes "\<forall>f \<in> set xs. has_metric metric f"
  shows "filter (\<lambda>f. metric f = Some v) (array_sort (by_metric_desc metric) xs) =
         filter (\<lambda>f. metric f = Some v) xs"
proof (rule filter_array_sort)
  fix x y
  assume "x \<in> set xs" and x: "metric x = Some v" and y: "metric y = Some v"
  then have "v \<noteq> NaN"
    using assms by (auto simp: has_metric_iff)
  then show "notAfter (by_metric_desc metric) x y"
    using x y by (simp add: notAfter_by_metric_desc jge_def)
qed

text \<open>
  C6. The result is the first ten of a list \<open>s\<close> that holds exactly the records kept by
  the two filters (a metric value that is not null and not NaN; under \<open>alertsOnly\<close> an
  alert level that is there and not \<open>none\<close>), is in descending order of the metric, and
  keeps records of equal metric value in their input order. Hence it has at most ten
  records, each with a numeric metric value and, under \<open>alertsOnly\<close>, a level other than
  \<open>none\<close>.
\<close>

theorem rankedTopN_top_ten:
  "let kept = filter (\<lambda>f. (\<exists>v. metric f = Some v \<and> v \<noteq> NaN) \<and>
                          (alertsOnly \<longrightarrow> (\<exists>l. level_of f = Some l \<and> l \<noteq> none))) source;
       ranked = rankedTopN metric level_of alertsOnly source
   in (\<exists>s. ranked = take 10 s \<and>
            mset s = mset kept \<and>
            sorted_wrt (\<lambda>a b. jge (the (metric a)) (the (metric b))) s \<and>
            (\<forall>v. filter (\<lambda>f. metric f = Some v) s = filter (\<lambda>f. metric f = Some v) kept)) \<and>
      length ranked \<le> 10 \<and>
      (\<forall>f \<in> set ranked. \<exists>v. metric f = Some v \<and> v \<noteq> NaN) \<and>
      (alertsOnly \<longrightarrow> (\<forall>f \<in> set ranked. \<exists>l. level_of f = Some l \<and> l \<noteq> none))"
proof -
  define kept where "kept = filter (\<lambda>f. (\<exists>v. metric f = Some v \<and> v \<noteq> NaN) \<and>
                          (alertsOnly \<longrightarrow> (\<exists>l. level_of f = Some l \<and> l \<noteq> none))) source"
  define s where "s = array_sort (by_metric_desc metric) kept"
  have kept: "filter (\<lambda>f. \<not> alertsOnly \<or> is_alert level_of f) (filter (has_metric metric) source) = kept"
    unfolding kept_def filter_filter has_metric_iff is_alert_iff
    by (rule filter_cong) auto
  have ranked: "rankedTopN metric level_of alertsOnly source = take 10 s"
    unfolding rankedTopN_def kept s_def slice_def by simp
  have all: "\<forall>f \<in> set kept. has_metric metric f"
    by (auto simp: kept_def has_metric_iff)
  have 1: "mset s = mset kept"
    by (simp add: s_def mset_array_sort)
  have 2: "sorted_wrt (\<lambda>a b. jge (the (metric a)) (the (metric b))) s"
    unfolding s_def by (rule sorted_by_metric_desc [OF all])
  have 3: "filter (\<lambda>f. metric f = Some v) s = filter (\<lambda>f. metric f = Some v) kept" for v
    unfolding s_def by (rule stable_by_metric_desc [OF all])
  have sub: "set (take 10 s) \<subseteq> set kept"
    using set_take_subset [of 10 s] by (simp add: s_def set_array_sort)
  have 4: "\<forall>f \<in> set (take 10 s). \<exists>v. metric f = Some v \<and> v \<noteq> NaN"
    using sub by (auto simp: kept_def)
  have 5: "alertsOnly \<longrightarrow> (\<forall>f \<in> set (take 10 s). \<exists>l. level_of f = Some l \<and> l \<noteq> none)"
    using sub by (auto simp: kept_def)
  have 6: "length (take 10 s) \<le> 10"
    by simp
  show ?thesis
    unfolding Let_def ranked kept_def [symmetric]
    using 1 2 3 4 5 6 by blast
qed

theorem rankedTopN_top_ten_witness:
  "map area_id (rankedTopN risk_index (\<lambda>r. Some (alert_level r)) True example_rows) = [''X'', ''Y''] \<and>
   length (rankedTopN risk_index (\<lambda>r. Some (alert_level r)) True example_rows) \<le> 10 \<and>
   list_all (\<lambda>f. (\<exists>v. risk_index f = Some v \<and> v \<noteq> NaN) \<and> alert_level f \<noteq> none)
     (rankedTopN risk_index (\<lambda>r. Some (alert_level r)) True example_rows)"
proof -
  have "map area_id (rankedTopN risk_index (\<lambda>r. Some (alert_level r)) True example_rows) = [''X'', ''Y'']"
    by code_simp
  then show ?thesis
    using rankedTopN_top_ten [of risk_index True "\<lambda>r. Some (alert_level r)" example_rows]
    unfolding Let_def list_all_iff by blast
qed

end
